theory Spec2Isabelle
  imports Main "HOL-Library.Word"
begin

unbundle bit_operations_syntax

section \<open>The Linky TIC serial reader (\<^verbatim>\<open>__init__.py\<close>)\<close>

text \<open>
  A shallow embedding of \<^verbatim>\<open>AsyncSerialReader\<close> and \<^verbatim>\<open>InvalidChecksum\<close>.
  Python \<^verbatim>\<open>bytes\<close> are lists of 8-bit words, Python integers are \<open>int\<close>, the
  attributes of the reader object are a record that every method takes and returns,
  and every exception a method can raise is a value of \<open>exn\<close>, returned on the left
  of a sum.
\<close>

subsection \<open>Bytes and the protocol constants\<close>

type_synonym byte = "8 word"
type_synonym bytes = "byte list"

text \<open>
  Modelled from the spec: the constants imported from \<^verbatim>\<open>.const\<close>, a module that is
  not part of the sources at hand. They are a parameter of every definition below.
  The spec calls each field separator ``the separator byte'', and the source passes
  \<^verbatim>\<open>MODE_HISTORIC_FIELD_SEPARATOR\<close> to \<^verbatim>\<open>ord\<close>, which accepts one byte only, so a
  separator is a single byte here; \<^verbatim>\<open>LINE_END\<close> and \<^verbatim>\<open>FRAME_END\<close> are byte strings.
\<close>

record tic_const =
  MODE_STANDARD_BAUD_RATE :: nat
  MODE_STANDARD_FIELD_SEPARATOR :: byte
  MODE_HISTORIC_BAUD_RATE :: nat
  MODE_HISTORIC_FIELD_SEPARATOR :: byte
  LINE_END :: bytes
  FRAME_END :: bytes

text \<open>
  Modelled from the spec: an instance of these constants, with which the concrete
  examples below are evaluated. The scenarios of the spec write the standard
  separator as a tabulation; the other values are those of the TIC protocol: a
  space in historic mode, CR LF at the end of a line, CR ETX STX LF around a frame,
  1200 and 9600 bauds.
\<close>

definition tic :: tic_const where
  "tic = \<lparr> MODE_STANDARD_BAUD_RATE = 9600,
           MODE_STANDARD_FIELD_SEPARATOR = 0x09,
           MODE_HISTORIC_BAUD_RATE = 1200,
           MODE_HISTORIC_FIELD_SEPARATOR = 0x20,
           LINE_END = [0x0D, 0x0A],
           FRAME_END = [0x0D, 0x03, 0x02, 0x0A] \<rparr>"

subsection \<open>Python's \<^verbatim>\<open>bytes\<close> operations\<close>

text \<open>\<^verbatim>\<open>line.rstrip(chars)\<close>: drops every trailing byte that occurs in \<^verbatim>\<open>chars\<close>.\<close>

definition rstrip :: "bytes \<Rightarrow> bytes \<Rightarrow> bytes" where
  "rstrip chars line = rev (dropWhile (\<lambda>b. List.member chars b) (rev line))"

text \<open>
  \<^verbatim>\<open>line.split(sep)\<close> for a one-byte separator: the fields between the occurrences
  of \<^verbatim>\<open>sep\<close>, empty fields included; the empty line has the single field \<^verbatim>\<open>b''\<close>.
\<close>

fun split_on :: "byte \<Rightarrow> bytes \<Rightarrow> bytes list" where
  "split_on sep [] = [[]]"
| "split_on sep (b # bs) =
     (if b = sep then [] # split_on sep bs
      else (b # hd (split_on sep bs)) # tl (split_on sep bs))"

text \<open>\<^verbatim>\<open>sep.join(fields)\<close>, the inverse of \<^verbatim>\<open>split\<close>; the source does not call it, it
  serves to state below that \<open>split_on\<close> loses nothing of the line.\<close>

fun join :: "byte \<Rightarrow> bytes list \<Rightarrow> bytes" where
  "join sep [] = []"
| "join sep [f] = f"
| "join sep (f # g # fs) = f @ sep # join sep (g # fs)"

text \<open>
  The exceptions that the methods below can raise. \<^verbatim>\<open>InvalidChecksum\<close> carries the
  attributes its constructor sets.
\<close>

record invalid_checksum =
  ic_tag :: string
  ic_timestamp :: string
  ic_value :: string
  ic_s1 :: int
  ic_s1_truncated :: int
  ic_computed :: int
  ic_expected :: bytes

datatype exn =
    InvalidChecksum invalid_checksum
  | TypeError
  | AttributeError
  | UnicodeDecodeError

text \<open>\<^verbatim>\<open>ord(b)\<close>: the value of a byte string of length one, \<^verbatim>\<open>TypeError\<close> otherwise.\<close>

fun ord :: "bytes \<Rightarrow> exn + int" where
  "ord [c] = Inr (uint c)"
| "ord _ = Inl TypeError"

text \<open>
  \<^verbatim>\<open>b.decode("ascii")\<close>: the text of a byte string whose bytes are all below 128,
  \<^verbatim>\<open>UnicodeDecodeError\<close> otherwise.
\<close>

definition decode_ascii :: "bytes \<Rightarrow> exn + string" where
  "decode_ascii bs =
     (if list_all (\<lambda>b. b < 0x80) bs then Inr (map (\<lambda>b. char_of (uint b)) bs)
      else Inl UnicodeDecodeError)"

subsection \<open>\<^verbatim>\<open>InvalidChecksum.__init__\<close>\<close>

text \<open>
  The constructor decodes \<^verbatim>\<open>tag\<close>, \<^verbatim>\<open>timestamp\<close> and \<^verbatim>\<open>value\<close> in this order before
  it stores the numbers. \<^verbatim>\<open>timestamp\<close> is \<^verbatim>\<open>None\<close> when the line had no timestamp, and
  \<^verbatim>\<open>None.decode\<close> raises \<^verbatim>\<open>AttributeError\<close>. The result is the exception that leaves
  the \<^verbatim>\<open>raise InvalidChecksum(...)\<close> statement: the structured one, or the one the
  constructor itself fails with. (The message built by \<^verbatim>\<open>msg\<close> only formats the
  fields and is not modelled.)
\<close>

definition InvalidChecksum_init ::
  "bytes \<Rightarrow> bytes option \<Rightarrow> bytes \<Rightarrow> int \<Rightarrow> int \<Rightarrow> int \<Rightarrow> bytes \<Rightarrow> exn" where
  "InvalidChecksum_init tag timestamp val s1 s1_truncated computed expected =
     (case decode_ascii tag of
        Inl e \<Rightarrow> e
      | Inr tag' \<Rightarrow>
          (case timestamp of
             None \<Rightarrow> AttributeError
           | Some ts \<Rightarrow>
               (case decode_ascii ts of
                  Inl e \<Rightarrow> e
                | Inr ts' \<Rightarrow>
                    (case decode_ascii val of
                       Inl e \<Rightarrow> e
                     | Inr val' \<Rightarrow>
                         InvalidChecksum
                           \<lparr> ic_tag = tag', ic_timestamp = ts', ic_value = val',
                             ic_s1 = s1, ic_s1_truncated = s1_truncated,
                             ic_computed = computed, ic_expected = expected \<rparr>))))"

subsection \<open>\<^verbatim>\<open>AsyncSerialReader.validate_checksum\<close>\<close>

text \<open>The frame that was checksummed, rebuilt from the fields (lines 221 to 228).\<close>

definition rebuild_frame :: "tic_const \<Rightarrow> bool \<Rightarrow> bytes \<Rightarrow> bytes option \<Rightarrow> bytes \<Rightarrow> bytes" where
  "rebuild_frame k std_mode tag timestamp val =
     (if std_mode then
        (let sep = [MODE_STANDARD_FIELD_SEPARATOR k] in
         case timestamp of
           None \<Rightarrow> tag @ sep @ val @ sep
         | Some ts \<Rightarrow> tag @ sep @ ts @ sep @ val @ sep)
      else tag @ [MODE_HISTORIC_FIELD_SEPARATOR k] @ val)"

text \<open>The loop \<^verbatim>\<open>s1 = 0; for b in frame: s1 += b\<close>.\<close>

definition frame_sum :: "bytes \<Rightarrow> int" where
  "frame_sum frame = foldl (\<lambda>s1 b. s1 + uint b) 0 frame"

definition validate_checksum ::
  "tic_const \<Rightarrow> bool \<Rightarrow> bytes \<Rightarrow> bytes option \<Rightarrow> bytes \<Rightarrow> bytes \<Rightarrow> exn + unit" where
  "validate_checksum k std_mode tag timestamp val checksum =
     (let frame = rebuild_frame k std_mode tag timestamp val;
          s1 = frame_sum frame;
          truncated = s1 AND 0x3F;
          computed_checksum = truncated + 0x20
      in case ord checksum of
           Inl e \<Rightarrow> Inl e
         | Inr expected \<Rightarrow>
             if computed_checksum \<noteq> expected
             then Inl (InvalidChecksum_init tag timestamp val s1 truncated
                         computed_checksum checksum)
             else Inr ())"

subsection \<open>The reader object\<close>

datatype stream_reader = StreamReader nat
datatype stream_writer = StreamWriter nat

text \<open>
  The timestamp of a stored payload is
  \<^verbatim>\<open>timestamp.decode("ascii") if timestamp else timestamp\<close>: \<^verbatim>\<open>None\<close> stays \<^verbatim>\<open>None\<close>, and
  an empty timestamp field, being falsy, is stored as the empty \<^verbatim>\<open>bytes\<close> it is.
\<close>

datatype ts_val = TsNone | TsEmptyBytes | TsStr string

record payload =
  p_value :: string
  p_timestamp :: ts_val

record serial_reader =
  s_port :: string
  s_baudrate :: nat
  s_std_mode :: bool
  s_reader :: "stream_reader option"
  s_writer :: "stream_writer option"
  s_first_line :: bool
  s_values :: "string \<rightharpoonup> payload"

definition AsyncSerialReader_init :: "tic_const \<Rightarrow> string \<Rightarrow> bool \<Rightarrow> serial_reader" where
  "AsyncSerialReader_init k port std_mode =
     \<lparr> s_port = port,
       s_baudrate = (if std_mode then MODE_STANDARD_BAUD_RATE k else MODE_HISTORIC_BAUD_RATE k),
       s_std_mode = std_mode,
       s_reader = None,
       s_writer = None,
       s_first_line = True,
       s_values = Map.empty \<rparr>"

subsection \<open>\<^verbatim>\<open>AsyncSerialReader.parse_line\<close>\<close>

text \<open>
  Field extraction (lines 171 to 201): the fields \<^verbatim>\<open>(tag, timestamp, field_value,
  checksum)\<close> of a cleaned line, or the number of fields found when that number is
  wrong for the mode.
\<close>

definition extract_fields ::
  "tic_const \<Rightarrow> bool \<Rightarrow> bytes \<Rightarrow> nat + (bytes \<times> bytes option \<times> bytes \<times> bytes)" where
  "extract_fields k std_mode line =
     (if std_mode then
        (let fields = split_on (MODE_STANDARD_FIELD_SEPARATOR k) line in
         if length fields = 4 then Inr (fields ! 0, Some (fields ! 1), fields ! 2, fields ! 3)
         else if length fields = 3 then Inr (fields ! 0, None, fields ! 1, fields ! 2)
         else Inl (length fields))
      else
        (let fields = split_on (MODE_HISTORIC_FIELD_SEPARATOR k) line in
         if length fields = 3 then Inr (fields ! 0, None, fields ! 1, fields ! 2)
         else if length fields = 4 then
           Inr (fields ! 0, None, fields ! 1, [MODE_HISTORIC_FIELD_SEPARATOR k])
         else Inl (length fields)))"

text \<open>What \<^verbatim>\<open>parse_line\<close> writes to the log before it returns.\<close>

datatype log_event =
    SkippedFirstLine
  | FieldCountError nat
  | ChecksumError invalid_checksum
  | ReadValues string payload

text \<open>
  The decoding and the store of lines 211 to 215: the value first, then the
  timestamp when it is truthy, then the tag.
\<close>

definition store_fields ::
  "serial_reader \<Rightarrow> bytes \<Rightarrow> bytes option \<Rightarrow> bytes \<Rightarrow> exn + serial_reader \<times> log_event" where
  "store_fields s tag timestamp field_value =
     (case decode_ascii field_value of
        Inl e \<Rightarrow> Inl e
      | Inr v \<Rightarrow>
          (case (case timestamp of
                   None \<Rightarrow> Inr TsNone
                 | Some ts \<Rightarrow>
                     if ts \<noteq> [] then map_sum id TsStr (decode_ascii ts)
                     else Inr TsEmptyBytes) of
             Inl e \<Rightarrow> Inl e
           | Inr t \<Rightarrow>
               (case decode_ascii tag of
                  Inl e \<Rightarrow> Inl e
                | Inr tag' \<Rightarrow>
                    (let p = \<lparr> p_value = v, p_timestamp = t \<rparr>
                     in Inr (s\<lparr> s_values := (s_values s)(tag' \<mapsto> p) \<rparr>,
                             ReadValues tag' p)))))"

text \<open>
  \<^verbatim>\<open>parse_line\<close> returns the updated reader and what it logged, or the exception
  that it lets through: only \<^verbatim>\<open>InvalidChecksum\<close> is caught.
\<close>

definition parse_line ::
  "tic_const \<Rightarrow> serial_reader \<Rightarrow> bytes \<Rightarrow> exn + serial_reader \<times> log_event" where
  "parse_line k s line =
     (if s_first_line s then Inr (s\<lparr> s_first_line := False \<rparr>, SkippedFirstLine)
      else
        (let line' = rstrip (FRAME_END k) (rstrip (LINE_END k) line) in
         case extract_fields k (s_std_mode s) line' of
           Inl n \<Rightarrow> Inr (s, FieldCountError n)
         | Inr (tag, timestamp, field_value, checksum) \<Rightarrow>
             (case validate_checksum k (s_std_mode s) tag timestamp field_value checksum of
                Inl (InvalidChecksum ic) \<Rightarrow> Inr (s, ChecksumError ic)
              | Inl e \<Rightarrow> Inl e
              | Inr _ \<Rightarrow> store_fields s tag timestamp field_value)))"

subsection \<open>\<^verbatim>\<open>is_connected\<close>, \<^verbatim>\<open>get_values\<close>, \<^verbatim>\<open>stop_serial_read\<close>, \<^verbatim>\<open>_reset_state\<close>\<close>

text \<open>\<^verbatim>\<open>return self._reader and self._writer\<close>, read as a truth value.\<close>

definition is_connected :: "serial_reader \<Rightarrow> bool" where
  "is_connected s = (s_reader s \<noteq> None \<and> s_writer s \<noteq> None)"

text \<open>
  The guard of \<^verbatim>\<open>get_values\<close> is \<^verbatim>\<open>if not self.is_connected\<close>, without a call: it
  tests the bound method object, which is truthy whatever the state of the reader.
\<close>

definition is_connected_method_truthy :: "serial_reader \<Rightarrow> bool" where
  "is_connected_method_truthy s = True"

definition get_values :: "serial_reader \<Rightarrow> string \<Rightarrow> string option \<times> ts_val option" where
  "get_values s tag =
     (if \<not> is_connected_method_truthy s then (None, None)
      else case s_values s tag of
             Some p \<Rightarrow> (Some (p_value p), Some (p_timestamp p))
           | None \<Rightarrow> (None, None))"

text \<open>
  \<^verbatim>\<open>stop_serial_read\<close> closes the writer's transport (an effect on the transport, which
  is outside the reader object) and forgets the writer; the reader is left in place
  as the flag that tells \<^verbatim>\<open>read_serial\<close> to stop.
\<close>

definition stop_serial_read :: "serial_reader \<Rightarrow> serial_reader" where
  "stop_serial_read s = (if s_writer s \<noteq> None then s\<lparr> s_writer := None \<rparr> else s)"

text \<open>The assignments of \<^verbatim>\<open>_reset_state\<close>; its five seconds of sleep are a step of the loop below.\<close>

definition reset_state :: "serial_reader \<Rightarrow> serial_reader" where
  "reset_state s =
     s\<lparr> s_reader := None, s_writer := None, s_first_line := True, s_values := Map.empty \<rparr>"

subsection \<open>\<^verbatim>\<open>read_serial\<close>: the working loop\<close>

text \<open>
  \<^verbatim>\<open>read_serial\<close> is a coroutine that never returns while the reader is not stopped.
  It is modelled as a transition function: the task is at a program point and moves
  on one event of its environment. The program points are the top of the \<^verbatim>\<open>while\<close>
  loop and the three \<^verbatim>\<open>await\<close>s at which the task is suspended (the open of the serial
  connection, the \<^verbatim>\<open>readline\<close>, the sleep of \<^verbatim>\<open>_reset_state\<close>); the task ends at
  \<open>Exited\<close> after the \<^verbatim>\<open>break\<close>, or at \<open>Failed e\<close> when the exception \<open>e\<close> leaves the
  loop, which catches \<^verbatim>\<open>SerialException\<close> only. The callback \<^verbatim>\<open>stop_serial_read\<close> runs
  on the same event loop, so it can run whenever the task is suspended or ended:
  the event \<open>Stop\<close> is accepted at every program point and leaves the point as it is.
\<close>

datatype pc = LoopTop | AwaitOpen | AwaitSleep | AwaitRead | Exited | Failed exn

datatype event =
    Resume
  | OpenOk stream_reader stream_writer
  | OpenFailed
  | SleepDone
  | ReadLine bytes
  | ReadFailed
  | Stop

type_synonym task = "pc \<times> serial_reader"

fun read_serial_step :: "tic_const \<Rightarrow> task \<Rightarrow> event \<Rightarrow> task option" where
  "read_serial_step k (p, s) Stop = Some (p, stop_serial_read s)"
| "read_serial_step k (LoopTop, s) Resume =
     Some (if s_reader s = None then (AwaitOpen, s)
           else if s_writer s = None then (Exited, s)
           else (AwaitRead, s))"
| "read_serial_step k (AwaitOpen, s) (OpenOk r w) =
     Some (LoopTop, s\<lparr> s_reader := Some r, s_writer := Some w \<rparr>)"
| "read_serial_step k (AwaitOpen, s) OpenFailed = Some (AwaitSleep, reset_state s)"
| "read_serial_step k (AwaitSleep, s) SleepDone = Some (LoopTop, s)"
| "read_serial_step k (AwaitRead, s) (ReadLine line) =
     Some (if s_writer s \<noteq> None then
             (case parse_line k s line of
                Inl e \<Rightarrow> (Failed e, s)
              | Inr (s', _) \<Rightarrow> (LoopTop, s'))
           else (LoopTop, s))"
| "read_serial_step k (AwaitRead, s) ReadFailed = Some (AwaitSleep, reset_state s)"
| "read_serial_step k _ _ = None"

text \<open>A run of the task over a sequence of events; \<open>None\<close> when an event cannot occur.\<close>

fun run :: "tic_const \<Rightarrow> task \<Rightarrow> event list \<Rightarrow> task option" where
  "run k c [] = Some c"
| "run k c (e # es) =
     (case read_serial_step k c e of None \<Rightarrow> None | Some c' \<Rightarrow> run k c' es)"

text \<open>The task that \<^verbatim>\<open>async_setup\<close> creates: a fresh reader, at the top of the loop.\<close>

definition start :: "tic_const \<Rightarrow> string \<Rightarrow> bool \<Rightarrow> task" where
  "start k port std_mode = (LoopTop, AsyncSerialReader_init k port std_mode)"

subsection \<open>The session states of the specification\<close>

text \<open>
  This definition follows the words of the specification, not the source: its
  section 4.3 names four session states. A session is \<open>Disconnected\<close> while it has no
  open transport, \<open>AwaitingFirstLine\<close> from a successful open until one line has been
  discarded, \<open>Connected\<close> after that, and \<open>Stopped\<close> once the transport has been closed
  by a stop request. The source has no such state; the attributes of the reader
  determine it.
\<close>

datatype session_state = Disconnected | AwaitingFirstLine | Connected | Stopped

definition spec_session_state :: "serial_reader \<Rightarrow> session_state" where
  "spec_session_state s =
     (if s_reader s = None then Disconnected
      else if s_writer s = None then Stopped
      else if s_first_line s then AwaitingFirstLine
      else Connected)"

subsection \<open>The invariant of the task\<close>

text \<open>
  What holds of the reader at every point of every run: without a reader there is no
  writer, the skip of the first line is armed and the table of values is empty; the
  table is empty as long as the skip is armed; the task waits for the open or
  sleeps only without a reader, and waits for a line or has left the loop only with
  one; it leaves the loop only without a writer.
\<close>

definition task_inv :: "task \<Rightarrow> bool" where
  "task_inv c =
     (let p = fst c; s = snd c in
        (s_reader s = None \<longrightarrow> s_writer s = None \<and> s_first_line s)
      \<and> (s_first_line s \<longrightarrow> s_values s = Map.empty)
      \<and> (p = AwaitOpen \<or> p = AwaitSleep \<longrightarrow> s_reader s = None)
      \<and> (p = AwaitRead \<or> p = Exited \<longrightarrow> s_reader s \<noteq> None)
      \<and> (p = Exited \<longrightarrow> s_writer s = None))"

text \<open>
  A reader in the middle of a session, for the concrete examples: the port is open,
  the first line has been skipped, and no value is stored yet.
\<close>

definition example_reader :: "bool \<Rightarrow> serial_reader" where
  "example_reader std_mode =
     (AsyncSerialReader_init tic ''/dev/ttyUSB0'' std_mode)
       \<lparr> s_reader := Some (StreamReader 0), s_writer := Some (StreamWriter 0),
         s_first_line := False \<rparr>"

section \<open>Properties\<close>

subsection \<open>Auxiliary facts\<close>

lemma and_0x3F_eq_mod: "(s :: int) AND 0x3F = s mod 64"
proof -
  have "s AND mask 6 = s mod 2 ^ 6"
    by (simp only: flip: take_bit_eq_mask take_bit_eq_mod)
  then show ?thesis by (simp add: mask_eq_exp_minus_1)
qed

lemma frame_sum_eq_sum_list: "frame_sum frame = sum_list (map uint frame)"
proof -
  have "foldl (\<lambda>s1 b. s1 + uint b) a frame = a + sum_list (map uint frame)" for a
    by (induction frame arbitrary: a) simp_all
  then show ?thesis by (simp add: frame_sum_def)
qed

lemma uint_byte_of_int: "0 \<le> y \<Longrightarrow> y < 256 \<Longrightarrow> uint (word_of_int y :: byte) = y"
  by (simp add: unsigned_of_int take_bit_int_eq_self)

lemma validate_checksum_Inr_iff:
  "validate_checksum k std_mode tag timestamp val checksum = Inr () \<longleftrightarrow>
     (\<exists>c. checksum = [c] \<and>
          (frame_sum (rebuild_frame k std_mode tag timestamp val) AND 0x3F) + 0x20 = uint c)"
  by (cases checksum rule: ord.cases) (auto simp: validate_checksum_def Let_def)

text \<open>\<^verbatim>\<open>split\<close> is a split: it never returns no field, it returns one field more than
  the line has separators, no field contains the separator, and joining the fields
  with the separator gives the line back.\<close>

lemma split_on_not_Nil: "split_on sep line \<noteq> []"
  by (induction line) simp_all

lemma length_split_on: "length (split_on sep line) = Suc (count_list line sep)"
proof (induction line)
  case Nil
  show ?case by simp
next
  case (Cons b bs)
  have "length (tl (split_on sep bs)) = count_list bs sep"
    using Cons.IH by simp
  with Cons.IH show ?case by simp
qed

lemma split_on_no_sep: "f \<in> set (split_on sep line) \<Longrightarrow> sep \<notin> set f"
proof (induction line arbitrary: f)
  case Nil
  then show ?case by simp
next
  case (Cons b bs)
  obtain g gs where gs: "split_on sep bs = g # gs"
    using split_on_not_Nil [of sep bs] by (cases "split_on sep bs") auto
  show ?case
  proof (cases "b = sep")
    case True
    with Cons show ?thesis by auto
  next
    case False
    with Cons.prems gs have "f = b # g \<or> f \<in> set gs" by simp
    then show ?thesis
    proof
      assume "f = b # g"
      moreover have "sep \<notin> set g" using Cons.IH [of g] gs by simp
      ultimately show ?thesis using False by auto
    next
      assume "f \<in> set gs"
      then show ?thesis using Cons.IH [of f] gs by simp
    qed
  qed
qed

lemma join_split_on: "join sep (split_on sep line) = line"
proof (induction line)
  case Nil
  show ?case by simp
next
  case (Cons b bs)
  obtain g gs where gs: "split_on sep bs = g # gs"
    using split_on_not_Nil [of sep bs] by (cases "split_on sep bs") auto
  with Cons.IH show ?case by (cases gs) auto
qed

subsection \<open>The checksum\<close>

text \<open>
  Claim C9 (checksum round trip). For all byte strings \<open>tag\<close> and \<open>val\<close>, with or
  without a timestamp, in either mode: the byte whose value is the sum of the bytes
  of the rebuilt frame, masked with \<open>0x3F\<close>, plus \<open>0x20\<close>, passes \<open>validate_checksum\<close>
  on the same fields; no exception is raised.
\<close>

theorem checksum_round_trip:
  "validate_checksum k std_mode tag timestamp val
     [word_of_int ((frame_sum (rebuild_frame k std_mode tag timestamp val) AND 0x3F) + 0x20)]
   = Inr ()"
proof -
  define y where "y = (frame_sum (rebuild_frame k std_mode tag timestamp val) AND 0x3F) + 0x20"
  have "0 \<le> y" and "y < 256"
    by (simp_all add: y_def and_0x3F_eq_mod)
  then have "uint (word_of_int y :: byte) = y"
    by (rule uint_byte_of_int)
  then show ?thesis
    unfolding validate_checksum_def Let_def y_def [symmetric]
    by (simp del: of_int_add)
qed

text \<open>
  Claim C1 (the checksum rule). For the fields of every line that field extraction
  accepts, the frame that is summed is \<open>tag + SEP + timestamp + SEP + value + SEP\<close> in
  standard mode with a timestamp, \<open>tag + SEP + value + SEP\<close> in standard mode without
  one, and \<open>tag + SEP + value\<close> in historic mode; and \<open>validate_checksum\<close> returns
  without an exception exactly when the checksum is one byte whose value is the sum
  of the bytes of that frame, masked with \<open>0x3F\<close>, plus \<open>0x20\<close>.
\<close>

theorem validate_checksum_valid_iff:
  assumes "extract_fields k std_mode line = Inr (tag, timestamp, val, checksum)"
    and "frame =
           (if std_mode then
              (case timestamp of
                 Some ts \<Rightarrow>
                   tag @ [MODE_STANDARD_FIELD_SEPARATOR k] @ ts
                     @ [MODE_STANDARD_FIELD_SEPARATOR k] @ val
                     @ [MODE_STANDARD_FIELD_SEPARATOR k]
               | None \<Rightarrow>
                   tag @ [MODE_STANDARD_FIELD_SEPARATOR k] @ val
                     @ [MODE_STANDARD_FIELD_SEPARATOR k])
            else tag @ [MODE_HISTORIC_FIELD_SEPARATOR k] @ val)"
  shows "(validate_checksum k std_mode tag timestamp val checksum = Inr ()) =
         (\<exists>c. checksum = [c] \<and> (sum_list (map uint frame) AND 0x3F) + 0x20 = uint c)"
proof -
  have "rebuild_frame k std_mode tag timestamp val = frame"
    using assms(2) by (simp add: rebuild_frame_def Let_def split: option.splits)
  then show ?thesis
    by (simp add: validate_checksum_Inr_iff frame_sum_eq_sum_list)
qed

theorem validate_checksum_valid_iff_witness:
  "extract_fields tic True [0x41, 0x42, 0x09, 0x54, 0x09, 0x43, 0x09, 0x55]
     = Inr ([0x41, 0x42], Some [0x54], [0x43], [0x55])
   \<and> validate_checksum tic True [0x41, 0x42] (Some [0x54]) [0x43] [0x55] = Inr ()
   \<and> extract_fields tic False [0x41, 0x20, 0x42, 0x20, 0x44]
     = Inr ([0x41], None, [0x42], [0x44])
   \<and> validate_checksum tic False [0x41] None [0x42] [0x44] \<noteq> Inr ()"
proof -
  have e1: "extract_fields tic True [0x41, 0x42, 0x09, 0x54, 0x09, 0x43, 0x09, 0x55]
              = Inr ([0x41, 0x42], Some [0x54], [0x43], [0x55])"
    by (simp add: extract_fields_def tic_def)
  have e2: "extract_fields tic False [0x41, 0x20, 0x42, 0x20, 0x44]
              = Inr ([0x41], None, [0x42], [0x44])"
    by (simp add: extract_fields_def tic_def)
  have v1: "validate_checksum tic True [0x41, 0x42] (Some [0x54]) [0x43] [0x55] = Inr ()"
    using validate_checksum_valid_iff [OF e1 refl] by (simp add: tic_def)
  have v2: "validate_checksum tic False [0x41] None [0x42] [0x44] \<noteq> Inr ()"
    using validate_checksum_valid_iff [OF e2 refl] by (simp add: tic_def)
  from e1 e2 v1 v2 show ?thesis by blast
qed

subsection \<open>Field extraction\<close>

text \<open>
  Claim C2 (standard mode). Once the first line is past, \<open>parse_line\<close> splits the
  cleaned line on the standard separator. Four fields are the tag, the timestamp,
  the value and the checksum; three fields are the tag, the value and the checksum,
  without a timestamp; with any other number of fields the line is dropped: the
  reader is unchanged, so nothing is stored, and the field count is logged as an
  error.
\<close>

theorem parse_line_standard_fields:
  assumes "s_std_mode s" and "\<not> s_first_line s"
    and "line' = rstrip (FRAME_END k) (rstrip (LINE_END k) line)"
    and "fs = split_on (MODE_STANDARD_FIELD_SEPARATOR k) line'"
  shows "(length fs = 4 \<longrightarrow>
            extract_fields k (s_std_mode s) line'
              = Inr (fs ! 0, Some (fs ! 1), fs ! 2, fs ! 3))
       \<and> (length fs = 3 \<longrightarrow>
            extract_fields k (s_std_mode s) line'
              = Inr (fs ! 0, None, fs ! 1, fs ! 2))
       \<and> (length fs \<noteq> 4 \<and> length fs \<noteq> 3 \<longrightarrow>
            extract_fields k (s_std_mode s) line' = Inl (length fs)
            \<and> parse_line k s line = Inr (s, FieldCountError (length fs)))"
  using assms by (simp add: extract_fields_def parse_line_def Let_def)

theorem parse_line_standard_fields_witness:
  "extract_fields tic True [0x41, 0x42, 0x09, 0x54, 0x09, 0x43, 0x09, 0x55]
     = Inr ([0x41, 0x42], Some [0x54], [0x43], [0x55])
   \<and> extract_fields tic True [0x41, 0x09, 0x42, 0x09, 0x35]
     = Inr ([0x41], None, [0x42], [0x35])
   \<and> parse_line tic (example_reader True) [0x41, 0x09, 0x42, 0x0D, 0x0A]
     = Inr (example_reader True, FieldCountError 2)"
proof -
  have m: "s_std_mode (example_reader True)" "\<not> s_first_line (example_reader True)"
    by (simp_all add: example_reader_def AsyncSerialReader_init_def)
  have "extract_fields tic True [0x41, 0x42, 0x09, 0x54, 0x09, 0x43, 0x09, 0x55]
          = Inr ([0x41, 0x42], Some [0x54], [0x43], [0x55])"
    using parse_line_standard_fields [OF m refl refl,
        of tic "[0x41, 0x42, 0x09, 0x54, 0x09, 0x43, 0x09, 0x55]"] m
    by (simp add: tic_def rstrip_def)
  moreover have "extract_fields tic True [0x41, 0x09, 0x42, 0x09, 0x35]
          = Inr ([0x41], None, [0x42], [0x35])"
    using parse_line_standard_fields [OF m refl refl, of tic "[0x41, 0x09, 0x42, 0x09, 0x35]"] m
    by (simp add: tic_def rstrip_def)
  moreover have "parse_line tic (example_reader True) [0x41, 0x09, 0x42, 0x0D, 0x0A]
          = Inr (example_reader True, FieldCountError 2)"
    using parse_line_standard_fields [OF m refl refl, of tic "[0x41, 0x09, 0x42, 0x0D, 0x0A]"]
    by (simp add: tic_def rstrip_def)
  ultimately show ?thesis by blast
qed

text \<open>
  Claim C3 (historic mode). Once the first line is past, \<open>parse_line\<close> splits the
  cleaned line on the historic separator. Three fields are the tag, the value and
  the checksum. Four fields are the tag and the value, and the checksum is the
  separator byte itself, whatever the last two fields are: they are not looked at,
  so they cause no failure. With any other number of fields the line is dropped
  with a field count error. No timestamp is ever extracted, and a value that is
  stored has the timestamp \<^verbatim>\<open>None\<close>.
\<close>

theorem parse_line_historic_fields:
  assumes "\<not> s_std_mode s" and "\<not> s_first_line s"
    and "line' = rstrip (FRAME_END k) (rstrip (LINE_END k) line)"
    and "fs = split_on (MODE_HISTORIC_FIELD_SEPARATOR k) line'"
  shows "(length fs = 3 \<longrightarrow>
            extract_fields k (s_std_mode s) line'
              = Inr (fs ! 0, None, fs ! 1, fs ! 2))
       \<and> (length fs = 4 \<longrightarrow>
            extract_fields k (s_std_mode s) line'
              = Inr (fs ! 0, None, fs ! 1, [MODE_HISTORIC_FIELD_SEPARATOR k]))
       \<and> (length fs \<noteq> 3 \<and> length fs \<noteq> 4 \<longrightarrow>
            extract_fields k (s_std_mode s) line' = Inl (length fs)
            \<and> parse_line k s line = Inr (s, FieldCountError (length fs)))
       \<and> (\<forall>tag timestamp val checksum.
            extract_fields k (s_std_mode s) line' = Inr (tag, timestamp, val, checksum)
              \<longrightarrow> timestamp = None)
       \<and> (\<forall>s' tag p.
            parse_line k s line = Inr (s', ReadValues tag p)
              \<longrightarrow> s_values s' tag = Some p \<and> p_timestamp p = TsNone)"
proof -
  have ex: "extract_fields k (s_std_mode s) line' =
              (if length fs = 3 then Inr (fs ! 0, None, fs ! 1, fs ! 2)
               else if length fs = 4
                 then Inr (fs ! 0, None, fs ! 1, [MODE_HISTORIC_FIELD_SEPARATOR k])
               else Inl (length fs))"
    using assms by (simp add: extract_fields_def Let_def)
  have stored: "s_values s' tag = Some p \<and> p_timestamp p = TsNone"
    if "store_fields s t None v = Inr (s', ReadValues tag p)" for s' tag p t v
    using that
    by (auto simp: store_fields_def Let_def split: sum.splits)
  have pl: "s_values s' tag = Some p \<and> p_timestamp p = TsNone"
    if "parse_line k s line = Inr (s', ReadValues tag p)" for s' tag p
    using that assms ex stored
    by (auto simp: parse_line_def Let_def split: if_splits sum.splits exn.splits)
  from ex pl assms show ?thesis
    by (auto simp: parse_line_def Let_def)
qed

theorem parse_line_historic_fields_witness:
  "parse_line tic (example_reader False) [0x41, 0x20, 0x42, 0x20, 0x43, 0x0D, 0x0A]
     = Inr ((example_reader False)
              \<lparr> s_values := [''A'' \<mapsto> \<lparr> p_value = ''B'', p_timestamp = TsNone \<rparr>] \<rparr>,
            ReadValues ''A'' \<lparr> p_value = ''B'', p_timestamp = TsNone \<rparr>)
   \<and> extract_fields tic False [0x41, 0x20, 0x5F, 0x20, 0x20]
     = Inr ([0x41], None, [0x5F], [0x20])
   \<and> parse_line tic (example_reader False) [0x41, 0x20, 0x5F, 0x20, 0x20, 0x0D, 0x0A]
     = Inr ((example_reader False)
              \<lparr> s_values := [''A'' \<mapsto> \<lparr> p_value = ''_'', p_timestamp = TsNone \<rparr>] \<rparr>,
            ReadValues ''A'' \<lparr> p_value = ''_'', p_timestamp = TsNone \<rparr>)
   \<and> parse_line tic (example_reader False) [0x41, 0x42, 0x0D, 0x0A]
     = Inr (example_reader False, FieldCountError 1)"
proof -
  have m: "\<not> s_std_mode (example_reader False)" "\<not> s_first_line (example_reader False)"
    by (simp_all add: example_reader_def AsyncSerialReader_init_def)
  have p1: "parse_line tic (example_reader False) [0x41, 0x20, 0x42, 0x20, 0x43, 0x0D, 0x0A]
     = Inr ((example_reader False)
              \<lparr> s_values := [''A'' \<mapsto> \<lparr> p_value = ''B'', p_timestamp = TsNone \<rparr>] \<rparr>,
            ReadValues ''A'' \<lparr> p_value = ''B'', p_timestamp = TsNone \<rparr>)"
    by (simp add: parse_line_def extract_fields_def validate_checksum_def rebuild_frame_def
        frame_sum_def store_fields_def decode_ascii_def char_of_def tic_def rstrip_def
        example_reader_def AsyncSerialReader_init_def Let_def)
  have p2: "parse_line tic (example_reader False) [0x41, 0x20, 0x5F, 0x20, 0x20, 0x0D, 0x0A]
     = Inr ((example_reader False)
              \<lparr> s_values := [''A'' \<mapsto> \<lparr> p_value = ''_'', p_timestamp = TsNone \<rparr>] \<rparr>,
            ReadValues ''A'' \<lparr> p_value = ''_'', p_timestamp = TsNone \<rparr>)"
    by (simp add: parse_line_def extract_fields_def validate_checksum_def rebuild_frame_def
        frame_sum_def store_fields_def decode_ascii_def char_of_def tic_def rstrip_def
        example_reader_def AsyncSerialReader_init_def Let_def)
  have "extract_fields tic False [0x41, 0x20, 0x5F, 0x20, 0x20]
          = Inr ([0x41], None, [0x5F], [0x20])"
    using parse_line_historic_fields [OF m refl refl,
        of tic "[0x41, 0x20, 0x5F, 0x20, 0x20, 0x0D, 0x0A]"] m
    by (simp add: tic_def rstrip_def)
  moreover have "parse_line tic (example_reader False) [0x41, 0x42, 0x0D, 0x0A]
          = Inr (example_reader False, FieldCountError 1)"
    using parse_line_historic_fields [OF m refl refl, of tic "[0x41, 0x42, 0x0D, 0x0A]"]
    by (simp add: tic_def rstrip_def)
  moreover have "s_values s' tag = Some p \<and> p_timestamp p = TsNone"
    if "parse_line tic (example_reader False) [0x41, 0x20, 0x42, 0x20, 0x43, 0x0D, 0x0A]
          = Inr (s', ReadValues tag p)" for s' tag p
    using parse_line_historic_fields [OF m refl refl,
        of tic "[0x41, 0x20, 0x42, 0x20, 0x43, 0x0D, 0x0A]"] that
    by blast
  ultimately show ?thesis using p1 p2 by blast
qed

subsection \<open>Runs of the working loop\<close>

lemma parse_line_frame:
  assumes "parse_line k s line = Inr (s', ev)"
  shows "s_reader s' = s_reader s" and "s_writer s' = s_writer s"
    and "\<not> s_first_line s'"
    and "s_first_line s \<Longrightarrow> s_values s' = s_values s \<and> ev = SkippedFirstLine"
    and "\<not> s_first_line s \<Longrightarrow> ev \<noteq> SkippedFirstLine"
  using assms
  by (auto simp: parse_line_def store_fields_def Let_def
      split: if_splits sum.splits exn.splits prod.splits option.splits)

lemma task_inv_start: "task_inv (start k port std_mode)"
  by (simp add: task_inv_def start_def AsyncSerialReader_init_def)

lemma task_inv_step:
  assumes "task_inv c" and "read_serial_step k c e = Some c'"
  shows "task_inv c'"
proof (cases c)
  case (Pair p s)
  show ?thesis
  proof (cases e)
    case Stop
    with assms Pair show ?thesis
      by (auto simp: task_inv_def stop_serial_read_def)
  next
    case (ReadLine line)
    with assms Pair have p: "p = AwaitRead"
      by (cases p) simp_all
    show ?thesis
    proof (cases "s_writer s \<noteq> None")
      case False
      with assms Pair ReadLine p show ?thesis by (auto simp: task_inv_def)
    next
      case True
      show ?thesis
      proof (cases "parse_line k s line")
        case (Inl x)
        with assms Pair ReadLine p True show ?thesis by (auto simp: task_inv_def)
      next
        case (Inr r)
        obtain s' ev where r: "r = (s', ev)" by (cases r)
        with Inr assms(2) Pair ReadLine p True have c': "c' = (LoopTop, s')" by simp
        from parse_line_frame [OF Inr [unfolded r]] assms(1) Pair p
        show ?thesis unfolding c' by (auto simp: task_inv_def)
      qed
    qed
  next
    case Resume
    with assms Pair show ?thesis
      by (cases p) (auto simp: task_inv_def split: if_splits)
  next
    case (OpenOk r w)
    with assms Pair show ?thesis
      by (cases p) (auto simp: task_inv_def)
  next
    case OpenFailed
    with assms Pair show ?thesis
      by (cases p) (auto simp: task_inv_def reset_state_def)
  next
    case SleepDone
    with assms Pair show ?thesis
      by (cases p) (auto simp: task_inv_def)
  next
    case ReadFailed
    with assms Pair show ?thesis
      by (cases p) (auto simp: task_inv_def reset_state_def)
  qed
qed

lemma task_inv_run:
  assumes "task_inv c" and "run k c es = Some c'"
  shows "task_inv c'"
  using assms
proof (induction es arbitrary: c)
  case Nil
  then show ?case by simp
next
  case (Cons e es)
  then show ?case
    by (auto split: option.splits dest: task_inv_step)
qed

lemma task_inv_reachable:
  "run k (start k port std_mode) es = Some c \<Longrightarrow> task_inv c"
  using task_inv_start task_inv_run by blast

text \<open>
  Claim C6 (the first line after a connection is discarded). At every point of every
  run of the task: the skip of the first line is armed whenever the reader has no
  connection, and \<open>reset_state\<close>, the only way into that state, arms it; so when an
  open succeeds, the next line is discarded whatever it contains, nothing is stored,
  and the skip is disarmed, so that no later line of the connection is skipped. If
  a stop request came before that line, the line is not handed to \<open>parse_line\<close> at
  all and nothing is stored either.
\<close>

theorem first_line_discarded:
  assumes "run k (start k port std_mode) es = Some (p, s)"
  shows "(s_reader s = None \<longrightarrow> s_first_line s)
       \<and> s_first_line (reset_state s)
       \<and> (p = AwaitOpen \<longrightarrow>
            s_values s = Map.empty
            \<and> run k (p, s) [OpenOk r w, Resume, ReadLine line]
                = Some (LoopTop,
                        s\<lparr> s_reader := Some r, s_writer := Some w, s_first_line := False \<rparr>))
       \<and> (p = AwaitRead \<and> s_first_line s \<longrightarrow>
            read_serial_step k (p, s) (ReadLine line)
              = Some (LoopTop, if s_writer s \<noteq> None then s\<lparr> s_first_line := False \<rparr> else s)
            \<and> s_values s = Map.empty)
       \<and> (\<not> s_first_line s \<longrightarrow> (\<forall>s'. parse_line k s line \<noteq> Inr (s', SkippedFirstLine)))"
proof -
  have inv: "task_inv (p, s)"
    using assms by (rule task_inv_reachable)
  have armed: "s_reader s = None \<longrightarrow> s_first_line s"
    using inv by (simp add: task_inv_def)
  have rearmed: "s_first_line (reset_state s)"
    by (simp add: reset_state_def)
  have opened: "s_values s = Map.empty
      \<and> run k (p, s) [OpenOk r w, Resume, ReadLine line]
          = Some (LoopTop,
                  s\<lparr> s_reader := Some r, s_writer := Some w, s_first_line := False \<rparr>)"
    if "p = AwaitOpen"
  proof -
    from inv that have "s_first_line s" and "s_values s = Map.empty"
      by (simp_all add: task_inv_def)
    with that show ?thesis by (simp add: parse_line_def)
  qed
  have skipped: "read_serial_step k (p, s) (ReadLine line)
        = Some (LoopTop, if s_writer s \<noteq> None then s\<lparr> s_first_line := False \<rparr> else s)
      \<and> s_values s = Map.empty"
    if "p = AwaitRead \<and> s_first_line s"
    using that inv by (simp add: parse_line_def task_inv_def)
  have once: "\<forall>s'. parse_line k s line \<noteq> Inr (s', SkippedFirstLine)" if "\<not> s_first_line s"
    using that parse_line_frame(5) [of k s line] by blast
  from armed rearmed opened skipped once show ?thesis by blast
qed

theorem first_line_discarded_witness:
  "run tic (start tic ''/dev/ttyUSB0'' True) [Resume]
     = Some (AwaitOpen, AsyncSerialReader_init tic ''/dev/ttyUSB0'' True)
   \<and> run tic (AwaitOpen, AsyncSerialReader_init tic ''/dev/ttyUSB0'' True)
        [OpenOk (StreamReader 1) (StreamWriter 1), Resume,
         ReadLine [0x41, 0x42, 0x09, 0x54, 0x09, 0x43, 0x09, 0x55, 0x0D, 0x0A]]
     = Some (LoopTop,
             (AsyncSerialReader_init tic ''/dev/ttyUSB0'' True)
               \<lparr> s_reader := Some (StreamReader 1), s_writer := Some (StreamWriter 1),
                 s_first_line := False \<rparr>)
   \<and> s_values (AsyncSerialReader_init tic ''/dev/ttyUSB0'' True) = Map.empty"
proof -
  have r: "run tic (start tic ''/dev/ttyUSB0'' True) [Resume]
             = Some (AwaitOpen, AsyncSerialReader_init tic ''/dev/ttyUSB0'' True)"
    by (simp add: start_def AsyncSerialReader_init_def)
  from first_line_discarded [OF r] r show ?thesis by blast
qed

text \<open>
  Claim C7, as the code has it. A read error and a failed open both run
  \<open>reset_state\<close>, after which the table of values is empty, \<open>is_connected\<close> is false
  and the session is \<open>Disconnected\<close>. At every point of every run: while the session
  is \<open>Disconnected\<close> the table is empty and \<open>is_connected\<close> is false, and only a
  successful open leaves that state, for \<open>AwaitingFirstLine\<close>; the table is still
  empty while the session is \<open>AwaitingFirstLine\<close>; and \<open>is_connected\<close> is true exactly
  while the session is \<open>AwaitingFirstLine\<close> or \<open>Connected\<close>, that is as soon as the
  transport is open, before the first line has been discarded.
\<close>

theorem reset_until_reconnected:
  assumes "run k (start k port std_mode) es = Some (p, s)"
  shows "(p = AwaitRead \<longrightarrow>
            read_serial_step k (p, s) ReadFailed = Some (AwaitSleep, reset_state s))
       \<and> (p = AwaitOpen \<longrightarrow>
            read_serial_step k (p, s) OpenFailed = Some (AwaitSleep, reset_state s))
       \<and> s_values (reset_state s) = Map.empty
       \<and> \<not> is_connected (reset_state s)
       \<and> spec_session_state (reset_state s) = Disconnected
       \<and> (spec_session_state s = Disconnected \<longrightarrow>
            s_values s = Map.empty \<and> \<not> is_connected s)
       \<and> (spec_session_state s = Disconnected \<longrightarrow>
            (\<forall>e p' s'. read_serial_step k (p, s) e = Some (p', s')
                \<and> spec_session_state s' \<noteq> Disconnected
              \<longrightarrow> (\<exists>r w. e = OpenOk r w) \<and> spec_session_state s' = AwaitingFirstLine))
       \<and> (spec_session_state s = AwaitingFirstLine \<longrightarrow> s_values s = Map.empty)
       \<and> (is_connected s \<longleftrightarrow>
            spec_session_state s = AwaitingFirstLine \<or> spec_session_state s = Connected)"
proof -
  have inv: "task_inv (p, s)"
    using assms by (rule task_inv_reachable)
  have steps: "(p = AwaitRead \<longrightarrow>
            read_serial_step k (p, s) ReadFailed = Some (AwaitSleep, reset_state s))
       \<and> (p = AwaitOpen \<longrightarrow>
            read_serial_step k (p, s) OpenFailed = Some (AwaitSleep, reset_state s))"
    by simp
  have after: "s_values (reset_state s) = Map.empty \<and> \<not> is_connected (reset_state s)
       \<and> spec_session_state (reset_state s) = Disconnected"
    by (simp add: reset_state_def is_connected_def spec_session_state_def)
  have disc: "s_reader s = None" if "spec_session_state s = Disconnected"
    using that by (simp add: spec_session_state_def split: if_splits)
  have while_disc: "s_values s = Map.empty \<and> \<not> is_connected s"
    if "spec_session_state s = Disconnected"
    using disc [OF that] inv by (simp add: task_inv_def is_connected_def)
  have leave: "(\<exists>r w. e = OpenOk r w) \<and> spec_session_state s' = AwaitingFirstLine"
    if d: "spec_session_state s = Disconnected"
      and st: "read_serial_step k (p, s) e = Some (p', s')"
      and nd: "spec_session_state s' \<noteq> Disconnected" for e p' s'
  proof -
    have rd: "s_reader s = None" and fl: "s_first_line s" and wr: "s_writer s = None"
      using disc [OF d] inv by (simp_all add: task_inv_def)
    have pc: "p \<noteq> AwaitRead" "p \<noteq> Exited"
      using rd inv by (auto simp: task_inv_def)
    show ?thesis
    proof (cases e)
      case Stop
      with st rd nd show ?thesis
        by (auto simp: stop_serial_read_def spec_session_state_def wr)
    next
      case Resume
      with st rd nd show ?thesis
        by (cases p) (auto simp: spec_session_state_def)
    next
      case (OpenOk r w)
      with st fl show ?thesis
        by (cases p) (auto simp: spec_session_state_def)
    next
      case OpenFailed
      with st nd show ?thesis
        by (cases p) (auto simp: spec_session_state_def reset_state_def)
    next
      case SleepDone
      with st rd nd show ?thesis
        by (cases p) (auto simp: spec_session_state_def)
    next
      case (ReadLine line)
      with st pc show ?thesis by (cases p) auto
    next
      case ReadFailed
      with st pc show ?thesis by (cases p) auto
    qed
  qed
  have awaiting: "s_values s = Map.empty" if "spec_session_state s = AwaitingFirstLine"
  proof -
    from that have "s_first_line s"
      by (simp add: spec_session_state_def split: if_splits)
    with inv show ?thesis by (simp add: task_inv_def)
  qed
  have conn: "is_connected s \<longleftrightarrow>
      spec_session_state s = AwaitingFirstLine \<or> spec_session_state s = Connected"
    by (simp add: is_connected_def spec_session_state_def)
  from steps after while_disc leave awaiting conn show ?thesis by blast
qed

theorem reset_until_reconnected_witness:
  "run tic (start tic ''/dev/ttyUSB0'' True) [Resume, OpenOk (StreamReader 1) (StreamWriter 1), Resume]
     = Some (AwaitRead,
             (AsyncSerialReader_init tic ''/dev/ttyUSB0'' True)
               \<lparr> s_reader := Some (StreamReader 1), s_writer := Some (StreamWriter 1) \<rparr>)
   \<and> read_serial_step tic
        (AwaitRead,
         (AsyncSerialReader_init tic ''/dev/ttyUSB0'' True)
           \<lparr> s_reader := Some (StreamReader 1), s_writer := Some (StreamWriter 1) \<rparr>)
        ReadFailed
     = Some (AwaitSleep,
             reset_state
               ((AsyncSerialReader_init tic ''/dev/ttyUSB0'' True)
                  \<lparr> s_reader := Some (StreamReader 1), s_writer := Some (StreamWriter 1) \<rparr>))
   \<and> \<not> is_connected
         (reset_state
            ((AsyncSerialReader_init tic ''/dev/ttyUSB0'' True)
               \<lparr> s_reader := Some (StreamReader 1), s_writer := Some (StreamWriter 1) \<rparr>))
   \<and> spec_session_state
         ((AsyncSerialReader_init tic ''/dev/ttyUSB0'' True)
            \<lparr> s_reader := Some (StreamReader 1), s_writer := Some (StreamWriter 1) \<rparr>)
       = AwaitingFirstLine
   \<and> is_connected
         ((AsyncSerialReader_init tic ''/dev/ttyUSB0'' True)
            \<lparr> s_reader := Some (StreamReader 1), s_writer := Some (StreamWriter 1) \<rparr>)"
proof -
  have r: "run tic (start tic ''/dev/ttyUSB0'' True)
             [Resume, OpenOk (StreamReader 1) (StreamWriter 1), Resume]
     = Some (AwaitRead,
             (AsyncSerialReader_init tic ''/dev/ttyUSB0'' True)
               \<lparr> s_reader := Some (StreamReader 1), s_writer := Some (StreamWriter 1) \<rparr>)"
    by (simp add: start_def AsyncSerialReader_init_def)
  have a: "spec_session_state
         ((AsyncSerialReader_init tic ''/dev/ttyUSB0'' True)
            \<lparr> s_reader := Some (StreamReader 1), s_writer := Some (StreamWriter 1) \<rparr>)
       = AwaitingFirstLine"
    by (simp add: spec_session_state_def AsyncSerialReader_init_def)
  from reset_until_reconnected [OF r] r a show ?thesis by blast
qed

text \<open>
  Claim C7, as the specification states it, fails: after a failed open and a
  successful one, before any line has been read, the session is \<open>AwaitingFirstLine\<close>,
  not \<open>Connected\<close>, and \<open>is_connected\<close> is already true.
\<close>

theorem is_connected_only_when_connected_counterexample:
  "run tic (start tic ''/dev/ttyUSB0'' True)
     [Resume, OpenFailed, SleepDone, Resume, OpenOk (StreamReader 1) (StreamWriter 1)]
     = Some (LoopTop,
             (AsyncSerialReader_init tic ''/dev/ttyUSB0'' True)
               \<lparr> s_reader := Some (StreamReader 1), s_writer := Some (StreamWriter 1) \<rparr>)
   \<and> is_connected
         ((AsyncSerialReader_init tic ''/dev/ttyUSB0'' True)
            \<lparr> s_reader := Some (StreamReader 1), s_writer := Some (StreamWriter 1) \<rparr>)
   \<and> spec_session_state
         ((AsyncSerialReader_init tic ''/dev/ttyUSB0'' True)
            \<lparr> s_reader := Some (StreamReader 1), s_writer := Some (StreamWriter 1) \<rparr>)
       \<noteq> Connected"
  by (simp add: start_def AsyncSerialReader_init_def reset_state_def is_connected_def
      spec_session_state_def)

text \<open>
  Claim C8 on the code: a stop request during the sleep that follows a failed open
  changes nothing, since there is no writer to close; when the sleep is over the
  loop opens the serial connection again and goes on reading.
\<close>

theorem stop_while_disconnected_reopens:
  "run tic (start tic ''/dev/ttyUSB0'' True) [Resume, OpenFailed, Stop]
     = Some (AwaitSleep, AsyncSerialReader_init tic ''/dev/ttyUSB0'' True)
   \<and> run tic (start tic ''/dev/ttyUSB0'' True)
        [Resume, OpenFailed, Stop, SleepDone, Resume,
         OpenOk (StreamReader 1) (StreamWriter 1), Resume]
     = Some (AwaitRead,
             (AsyncSerialReader_init tic ''/dev/ttyUSB0'' True)
               \<lparr> s_reader := Some (StreamReader 1), s_writer := Some (StreamWriter 1) \<rparr>)"
  by (simp add: start_def AsyncSerialReader_init_def reset_state_def stop_serial_read_def)

text \<open>
  Claim C10 (a stop keeps the values). \<open>stop_serial_read\<close> changes nothing but the
  writer, so after it the reader is no longer connected, yet \<open>get_values\<close>, whose guard
  never holds, answers as before: for a stored tag, its value and timestamp. The
  loop then drops the line that was being read and exits with the table intact.
\<close>

theorem stop_keeps_values:
  assumes "s_values s tag = Some p"
  shows "get_values (stop_serial_read s) tag = (Some (p_value p), Some (p_timestamp p))
       \<and> get_values (stop_serial_read s) tag = get_values s tag
       \<and> s_values (stop_serial_read s) = s_values s
       \<and> stop_serial_read s = (if s_writer s \<noteq> None then s\<lparr> s_writer := None \<rparr> else s)
       \<and> \<not> is_connected (stop_serial_read s)
       \<and> (s_reader s \<noteq> None \<longrightarrow>
            run k (AwaitRead, s) [Stop, ReadLine line, Resume]
              = Some (Exited, stop_serial_read s))"
  using assms
  by (simp add: get_values_def is_connected_method_truthy_def stop_serial_read_def
      is_connected_def)

theorem stop_keeps_values_witness:
  "s_values ((example_reader True)
       \<lparr> s_values := [''A'' \<mapsto> \<lparr> p_value = ''B'', p_timestamp = TsStr ''T'' \<rparr>] \<rparr>) ''A''
     = Some \<lparr> p_value = ''B'', p_timestamp = TsStr ''T'' \<rparr>
   \<and> get_values
        (stop_serial_read
           ((example_reader True)
              \<lparr> s_values := [''A'' \<mapsto> \<lparr> p_value = ''B'', p_timestamp = TsStr ''T'' \<rparr>] \<rparr>))
        ''A''
     = (Some ''B'', Some (TsStr ''T''))
   \<and> \<not> is_connected
        (stop_serial_read
           ((example_reader True)
              \<lparr> s_values := [''A'' \<mapsto> \<lparr> p_value = ''B'', p_timestamp = TsStr ''T'' \<rparr>] \<rparr>))"
proof -
  have h: "s_values ((example_reader True)
       \<lparr> s_values := [''A'' \<mapsto> \<lparr> p_value = ''B'', p_timestamp = TsStr ''T'' \<rparr>] \<rparr>) ''A''
     = Some \<lparr> p_value = ''B'', p_timestamp = TsStr ''T'' \<rparr>"
    by simp
  note t = stop_keeps_values [OF h, of tic "[]"]
  from t [THEN conjunct1]
  have g: "get_values
        (stop_serial_read
           ((example_reader True)
              \<lparr> s_values := [''A'' \<mapsto> \<lparr> p_value = ''B'', p_timestamp = TsStr ''T'' \<rparr>] \<rparr>))
        ''A''
     = (Some ''B'', Some (TsStr ''T''))"
    by simp
  from t have c: "\<not> is_connected
        (stop_serial_read
           ((example_reader True)
              \<lparr> s_values := [''A'' \<mapsto> \<lparr> p_value = ''B'', p_timestamp = TsStr ''T'' \<rparr>] \<rparr>))"
    by blast
  from h g c show ?thesis by blast
qed

subsection \<open>Lines that are dropped, and lines that end the task\<close>

lemma decode_ascii_cases:
  "decode_ascii bs = Inl UnicodeDecodeError \<or> (\<exists>t. decode_ascii bs = Inr t)"
  by (simp add: decode_ascii_def)

lemma decode_ascii_non_ascii:
  "list_ex (\<lambda>b. 0x80 \<le> b) bs \<Longrightarrow> decode_ascii bs = Inl UnicodeDecodeError"
proof -
  assume "list_ex (\<lambda>b. 0x80 \<le> b) bs"
  then obtain b where "b \<in> set bs" and "\<not> b < 0x80"
    by (auto simp: list_ex_iff not_less)
  then have "\<not> list_all (\<lambda>b. b < 0x80) bs"
    by (auto simp: list_all_iff)
  then show ?thesis by (simp add: decode_ascii_def)
qed

lemma store_fields_non_ascii:
  assumes "list_ex (\<lambda>b. 0x80 \<le> b)
             (tag @ field_value @ (case timestamp of None \<Rightarrow> [] | Some ts \<Rightarrow> ts))"
  shows "store_fields s tag timestamp field_value = Inl UnicodeDecodeError"
proof -
  from assms consider
      (v) "list_ex (\<lambda>b. 0x80 \<le> b) field_value"
    | (t) ts where "timestamp = Some ts" and "list_ex (\<lambda>b. 0x80 \<le> b) ts"
    | (g) "list_ex (\<lambda>b. 0x80 \<le> b) tag"
    by (auto split: option.splits)
  then show ?thesis
  proof cases
    case v
    then show ?thesis
      by (simp add: store_fields_def decode_ascii_non_ascii)
  next
    case t
    then have "ts \<noteq> []" by auto
    with t decode_ascii_cases [of field_value] show ?thesis
      by (auto simp: store_fields_def decode_ascii_non_ascii)
  next
    case g
    with decode_ascii_cases [of field_value] decode_ascii_cases [of "the timestamp"]
    show ?thesis
      by (cases timestamp) (auto simp: store_fields_def decode_ascii_non_ascii)
  qed
qed

text \<open>A task that an exception has ended stays ended, whatever happens next.\<close>

lemma failed_is_final:
  "run k (Failed x, s) es = Some c \<Longrightarrow> fst c = Failed x"
proof (induction es arbitrary: s)
  case Nil
  then show ?case by auto
next
  case (Cons a es)
  then show ?case by (cases a) (auto split: option.splits)
qed

text \<open>
  A mismatch on a line that has a timestamp, all of whose fields are ASCII and
  whose checksum field is one byte: the structured exception is raised with the
  decoded fields, the sum, the truncated sum, the computed and the expected byte;
  \<open>parse_line\<close> catches it, logs it and leaves the reader as it was.
\<close>

lemma checksum_mismatch_with_timestamp_logged:
  assumes "\<not> s_first_line s"
    and "extract_fields k (s_std_mode s) (rstrip (FRAME_END k) (rstrip (LINE_END k) line))
           = Inr (tag, Some ts, val, [c])"
    and "s1 = frame_sum (rebuild_frame k (s_std_mode s) tag (Some ts) val)"
    and "(s1 AND 0x3F) + 0x20 \<noteq> uint c"
    and "decode_ascii tag = Inr tag'" and "decode_ascii ts = Inr ts'"
    and "decode_ascii val = Inr val'"
  shows "parse_line k s line =
           Inr (s, ChecksumError
                     \<lparr> ic_tag = tag', ic_timestamp = ts', ic_value = val',
                       ic_s1 = s1, ic_s1_truncated = s1 AND 0x3F,
                       ic_computed = (s1 AND 0x3F) + 0x20, ic_expected = [c] \<rparr>)"
  using assms
  by (simp add: parse_line_def validate_checksum_def InvalidChecksum_init_def Let_def)

text \<open>
  The same mismatch on a line without a timestamp never gives the structured
  exception: the constructor fails, on the tag when it is not ASCII, on the
  timestamp \<^verbatim>\<open>None\<close> otherwise. And a checksum field that is not one byte long fails
  in \<^verbatim>\<open>ord\<close>, before any comparison.
\<close>

lemma checksum_mismatch_without_timestamp_raises:
  assumes "(frame_sum (rebuild_frame k std_mode tag None val) AND 0x3F) + 0x20 \<noteq> uint c"
  shows "validate_checksum k std_mode tag None val [c] =
           Inl (if list_all (\<lambda>b. b < 0x80) tag then AttributeError else UnicodeDecodeError)"
  using assms
  by (simp add: validate_checksum_def InvalidChecksum_init_def decode_ascii_def Let_def)

lemma checksum_field_not_one_byte:
  assumes "length checksum \<noteq> 1"
  shows "validate_checksum k std_mode tag timestamp val checksum = Inl TypeError"
  using assms
  by (cases checksum rule: ord.cases) (simp_all add: validate_checksum_def Let_def)

text \<open>
  Claim C4 on the code, at a line without a timestamp: in historic mode the line
  \<^verbatim>\<open>A B D\<close> has two fields and the wrong checksum (the right one is \<^verbatim>\<open>C\<close>). The
  constructor of \<^verbatim>\<open>InvalidChecksum\<close> fails on the timestamp \<^verbatim>\<open>None\<close>, so what is
  raised is \<^verbatim>\<open>AttributeError\<close>: \<open>parse_line\<close> does not catch it, and the task ends.
\<close>

theorem checksum_mismatch_without_timestamp_ends_task:
  "extract_fields tic False [0x41, 0x20, 0x42, 0x20, 0x44] = Inr ([0x41], None, [0x42], [0x44])
   \<and> validate_checksum tic False [0x41] None [0x42] [0x44] = Inl AttributeError
   \<and> parse_line tic (example_reader False) [0x41, 0x20, 0x42, 0x20, 0x44, 0x0D, 0x0A]
     = Inl AttributeError
   \<and> read_serial_step tic (AwaitRead, example_reader False)
        (ReadLine [0x41, 0x20, 0x42, 0x20, 0x44, 0x0D, 0x0A])
     = Some (Failed AttributeError, example_reader False)"
proof -
  have e: "extract_fields tic False [0x41, 0x20, 0x42, 0x20, 0x44]
             = Inr ([0x41], None, [0x42], [0x44])"
    by (simp add: extract_fields_def tic_def)
  have v: "validate_checksum tic False [0x41] None [0x42] [0x44] = Inl AttributeError"
    by (simp add: validate_checksum_def rebuild_frame_def frame_sum_def
        InvalidChecksum_init_def decode_ascii_def tic_def Let_def)
  have c: "rstrip (FRAME_END tic) (rstrip (LINE_END tic) [0x41, 0x20, 0x42, 0x20, 0x44, 0x0D, 0x0A])
             = [0x41, 0x20, 0x42, 0x20, 0x44]"
    by (simp add: rstrip_def tic_def)
  have m: "\<not> s_first_line (example_reader False)" "\<not> s_std_mode (example_reader False)"
    "s_writer (example_reader False) \<noteq> None"
    by (simp_all add: example_reader_def AsyncSerialReader_init_def)
  have p: "parse_line tic (example_reader False) [0x41, 0x20, 0x42, 0x20, 0x44, 0x0D, 0x0A]
             = Inl AttributeError"
    using m by (simp add: parse_line_def c e v)
  from e v p m show ?thesis by simp
qed

text \<open>
  Claim C5, as the code has it. When a line passes field extraction and the
  checksum but its tag, its value or its timestamp has a byte above 127, nothing is
  stored, and the \<^verbatim>\<open>UnicodeDecodeError\<close> of the decoding is not caught: it leaves
  \<open>parse_line\<close> and the loop, and the task ends with the reader as it was.
\<close>

theorem non_ascii_line_not_stored:
  assumes "\<not> s_first_line s"
    and "extract_fields k (s_std_mode s) (rstrip (FRAME_END k) (rstrip (LINE_END k) line))
           = Inr (tag, timestamp, val, checksum)"
    and "validate_checksum k (s_std_mode s) tag timestamp val checksum = Inr ()"
    and "list_ex (\<lambda>b. 0x80 \<le> b)
           (tag @ val @ (case timestamp of None \<Rightarrow> [] | Some ts \<Rightarrow> ts))"
  shows "parse_line k s line = Inl UnicodeDecodeError
       \<and> (s_writer s \<noteq> None \<longrightarrow>
            read_serial_step k (AwaitRead, s) (ReadLine line)
              = Some (Failed UnicodeDecodeError, s))"
proof -
  have "store_fields s tag timestamp val = Inl UnicodeDecodeError"
    using assms(4) by (rule store_fields_non_ascii)
  with assms(1-3) have "parse_line k s line = Inl UnicodeDecodeError"
    by (simp add: parse_line_def Let_def)
  then show ?thesis by simp
qed

theorem non_ascii_line_not_stored_witness:
  "parse_line tic (example_reader True) [0x41, 0x09, 0x54, 0x09, 0xC2, 0x09, 0x52, 0x0D, 0x0A]
     = Inl UnicodeDecodeError
   \<and> read_serial_step tic (AwaitRead, example_reader True)
        (ReadLine [0x41, 0x09, 0x54, 0x09, 0xC2, 0x09, 0x52, 0x0D, 0x0A])
     = Some (Failed UnicodeDecodeError, example_reader True)"
proof -
  have m: "\<not> s_first_line (example_reader True)" "s_std_mode (example_reader True)"
    "s_writer (example_reader True) \<noteq> None"
    by (simp_all add: example_reader_def AsyncSerialReader_init_def)
  have e: "extract_fields tic (s_std_mode (example_reader True))
             (rstrip (FRAME_END tic)
                (rstrip (LINE_END tic) [0x41, 0x09, 0x54, 0x09, 0xC2, 0x09, 0x52, 0x0D, 0x0A]))
           = Inr ([0x41], Some [0x54], [0xC2], [0x52])"
    using m by (simp add: extract_fields_def rstrip_def tic_def)
  have v: "validate_checksum tic (s_std_mode (example_reader True))
             [0x41] (Some [0x54]) [0xC2] [0x52] = Inr ()"
    using m by (simp add: validate_checksum_def rebuild_frame_def frame_sum_def tic_def Let_def)
  have n: "list_ex (\<lambda>b. 0x80 \<le> b)
             ([0x41] @ [0xC2 :: byte] @ (case Some [0x54] of None \<Rightarrow> [] | Some ts \<Rightarrow> ts))"
    by simp
  from non_ascii_line_not_stored [OF m(1) e v n] m(3) show ?thesis by blast
qed

text \<open>
  Claim C5, as the specification states it, fails: the line with the tag \<open>0xC1\<close>,
  the value \<^verbatim>\<open>B\<close> and the right checksum \<^verbatim>\<open>5\<close> passes field extraction and the
  checksum, and the session does not continue: the task ends on the decoding error.
\<close>

theorem non_ascii_line_recoverable_counterexample:
  "extract_fields tic True [0xC1, 0x09, 0x42, 0x09, 0x35] = Inr ([0xC1], None, [0x42], [0x35])
   \<and> validate_checksum tic True [0xC1] None [0x42] [0x35] = Inr ()
   \<and> read_serial_step tic (AwaitRead, example_reader True)
        (ReadLine [0xC1, 0x09, 0x42, 0x09, 0x35, 0x0D, 0x0A])
     = Some (Failed UnicodeDecodeError, example_reader True)"
proof -
  have e: "extract_fields tic True [0xC1, 0x09, 0x42, 0x09, 0x35]
             = Inr ([0xC1], None, [0x42], [0x35])"
    by (simp add: extract_fields_def tic_def)
  have v: "validate_checksum tic True [0xC1] None [0x42] [0x35] = Inr ()"
    by (simp add: validate_checksum_def rebuild_frame_def frame_sum_def tic_def Let_def)
  have c: "rstrip (FRAME_END tic) (rstrip (LINE_END tic) [0xC1, 0x09, 0x42, 0x09, 0x35, 0x0D, 0x0A])
             = [0xC1, 0x09, 0x42, 0x09, 0x35]"
    by (simp add: rstrip_def tic_def)
  have m: "\<not> s_first_line (example_reader True)" "s_std_mode (example_reader True)"
    "s_writer (example_reader True) \<noteq> None"
    by (simp_all add: example_reader_def AsyncSerialReader_init_def)
  have p: "parse_line tic (example_reader True) [0xC1, 0x09, 0x42, 0x09, 0x35, 0x0D, 0x0A]
             = Inl UnicodeDecodeError"
    using m by (simp add: parse_line_def c e v store_fields_def decode_ascii_def)
  from e v p m show ?thesis by simp
qed

end
